theory Spec2Isabelle
  imports Main "HOL-Library.Sublist"
begin

section \<open>The notes application: store, view state and event handlers\<close>

text \<open>
  The program is one React component (\<^verbatim>\<open>App\<close> in \<^verbatim>\<open>src/App.tsx\<close>) over one SQLite table
  \<^verbatim>\<open>notes(id INTEGER PRIMARY KEY AUTOINCREMENT, note TEXT)\<close>. The model has three layers:
  \<^item> the four SQL statements the component issues, as functions on a table;
  \<^item> the component's \<^verbatim>\<open>useState\<close> cells, as a record;
  \<^item> the event handlers, as functions on the pair of the module-level \<^verbatim>\<open>db\<close> handle and
    the view state.

  Strings are \<open>string\<close>: a character stands for one code unit in the range 0..255.
  Row ids are \<open>int\<close>; the ceiling of SQLite's 64-bit rowid and I/O failures of the driver
  are outside the model.
\<close>

subsection \<open>Rows and the table\<close>

text \<open>A row of \<^verbatim>\<open>notes\<close>, which is also the element type of the \<^verbatim>\<open>notes\<close> state cell
  (\<^verbatim>\<open>{ id: number; note: string }\<close>).\<close>

record note_row =
  row_id :: int
  row_note :: string

text \<open>The table in rowid insertion order, with the counter that \<^verbatim>\<open>AUTOINCREMENT\<close> keeps in
  \<^verbatim>\<open>sqlite_sequence\<close> (the largest rowid ever assigned; 0 for a fresh table).\<close>

record database =
  notes_table :: "note_row list"
  sqlite_sequence :: int

definition empty_db :: database where
  "empty_db = \<lparr>notes_table = [], sqlite_sequence = 0\<rparr>"

subsection \<open>The \<^verbatim>\<open>LIKE\<close> operator\<close>

text \<open>SQLite's default \<^verbatim>\<open>LIKE\<close>: \<^verbatim>\<open>%\<close> matches any run of characters, \<^verbatim>\<open>_\<close> matches exactly
  one character, there is no escape character, and the letters A..Z and a..z compare
  without regard to case: \<open>sql_lower\<close> is the code of the character after folding A..Z
  (65..90) to lower case.\<close>

definition sql_lower :: "char \<Rightarrow> nat" where
  "sql_lower c = (let n = of_char c in if 65 \<le> n \<and> n \<le> 90 then n + 32 else n)"

fun sql_like :: "string \<Rightarrow> string \<Rightarrow> bool" where
  "sql_like [] s = (s = [])"
| "sql_like (p # ps) [] = (p = CHR ''%'' \<and> sql_like ps [])"
| "sql_like (p # ps) (c # cs) =
     (if p = CHR ''%'' then sql_like ps (c # cs) \<or> sql_like (p # ps) cs
      else if p = CHR ''_'' then sql_like ps cs
      else sql_lower p = sql_lower c \<and> sql_like ps cs)"

subsection \<open>The four statements\<close>

text \<open>\<^verbatim>\<open>SELECT * FROM notes WHERE note LIKE ? ORDER BY id DESC LIMIT ? OFFSET ?\<close> with the
  arguments \<^verbatim>\<open>[`%${search}%`, limit, page * limit]\<close>: the first argument of \<open>sql_select\<close> is
  the search term, which the caller wraps in \<^verbatim>\<open>%\<close>.\<close>

definition like_arg :: "string \<Rightarrow> string" where
  "like_arg term = CHR ''%'' # term @ [CHR ''%'']"

definition sql_select :: "database \<Rightarrow> string \<Rightarrow> nat \<Rightarrow> nat \<Rightarrow> note_row list" where
  "sql_select d term lim off =
     take lim (drop off
       (sort_key (\<lambda>r. - row_id r)
          (filter (\<lambda>r. sql_like (like_arg term) (row_note r)) (notes_table d))))"

text \<open>\<^verbatim>\<open>INSERT INTO notes (note) VALUES (?)\<close>: the new rowid is one more than the largest
  rowid ever in the table.\<close>

definition next_id :: "database \<Rightarrow> int" where
  "next_id d = fold max (map row_id (notes_table d)) (sqlite_sequence d) + 1"

definition sql_insert :: "database \<Rightarrow> string \<Rightarrow> database" where
  "sql_insert d text =
     \<lparr>notes_table = notes_table d @ [\<lparr>row_id = next_id d, row_note = text\<rparr>],
      sqlite_sequence = next_id d\<rparr>"

text \<open>\<^verbatim>\<open>UPDATE notes SET note = ? WHERE id = ?\<close>\<close>

definition sql_update :: "database \<Rightarrow> string \<Rightarrow> int \<Rightarrow> database" where
  "sql_update d text i =
     d\<lparr>notes_table := map (\<lambda>r. if row_id r = i then r\<lparr>row_note := text\<rparr> else r) (notes_table d)\<rparr>"

text \<open>\<^verbatim>\<open>DELETE FROM notes WHERE id = ?\<close>\<close>

definition sql_delete :: "database \<Rightarrow> int \<Rightarrow> database" where
  "sql_delete d i = d\<lparr>notes_table := filter (\<lambda>r. row_id r \<noteq> i) (notes_table d)\<rparr>"

subsection \<open>View state\<close>

text \<open>One field for each \<^verbatim>\<open>useState\<close> cell of \<^verbatim>\<open>App\<close>; the cell \<^verbatim>\<open>notes\<close> is \<open>notes_state\<close>.\<close>

record view =
  notes_state :: "note_row list"
  search :: string
  modalVisible :: bool
  modalDeleteVisible :: bool
  currentNote :: string
  editingNoteId :: "int option"
  deleteNoteId :: "int option"
  page :: nat

definition initial_view :: view where
  "initial_view = \<lparr>notes_state = [], search = [], modalVisible = False, modalDeleteVisible = False,
     currentNote = [], editingNoteId = None, deleteNoteId = None, page = 0\<rparr>"

definition limit :: nat where
  "limit = 50"

text \<open>The whole state: the module-level \<^verbatim>\<open>db\<close> (\<open>None\<close> is \<^verbatim>\<open>null\<close>) and the state cells.\<close>

type_synonym app = "database option \<times> view"

subsection \<open>\<^verbatim>\<open>String.prototype.trim\<close>\<close>

definition is_ws :: "char \<Rightarrow> bool" where
  "is_ws c = ((of_char c :: nat) \<in> {9, 10, 11, 12, 13, 32, 160})"

definition trim :: "string \<Rightarrow> string" where
  "trim s = rev (dropWhile is_ws (rev (dropWhile is_ws s)))"

subsection \<open>Handlers\<close>

text \<open>
  A handler is a closure created by one render of \<^verbatim>\<open>App\<close>: the names \<^verbatim>\<open>search\<close>, \<^verbatim>\<open>page\<close>,
  \<^verbatim>\<open>notes\<close>, \<^verbatim>\<open>currentNote\<close>, ... in its body are the \<^verbatim>\<open>const\<close> bindings of that render, and
  a \<^verbatim>\<open>setX\<close> call does not change them; it changes the cell that the next render reads.
  So every handler takes the render's snapshot \<open>snap\<close>, from which it reads, and the
  state \<open>(dbo, cur)\<close> that it updates. The module-level \<^verbatim>\<open>db\<close> is an ordinary variable and is
  read where the statement runs.

  Each handler runs to completion before the next event: the awaited statements of one
  handler are not interleaved with another handler.
\<close>

definition loadNotes :: "view \<Rightarrow> app \<Rightarrow> app" where
  "loadNotes snap = (\<lambda>(dbo, cur).
     case dbo of
       None \<Rightarrow> (dbo, cur)
     | Some d \<Rightarrow>
         let results = sql_select d (search snap) limit (page snap * limit)
         in (dbo, cur\<lparr>notes_state := (if page snap = 0 then results else notes_state snap @ results)\<rparr>))"

definition addNote :: "view \<Rightarrow> app \<Rightarrow> app" where
  "addNote snap = (\<lambda>(dbo, cur).
     if trim (currentNote snap) = [] then (dbo, cur)
     else case dbo of
       None \<Rightarrow> (dbo, cur)
     | Some d \<Rightarrow>
         loadNotes snap
           (Some (sql_insert d (currentNote snap)),
            cur\<lparr>currentNote := [], modalVisible := False, page := 0\<rparr>))"

definition updateNote :: "view \<Rightarrow> app \<Rightarrow> app" where
  "updateNote snap = (\<lambda>(dbo, cur).
     if trim (currentNote snap) = [] then (dbo, cur)
     else case editingNoteId snap of
       None \<Rightarrow> (dbo, cur)
     | Some i \<Rightarrow>
         (case dbo of
            None \<Rightarrow> (dbo, cur)
          | Some d \<Rightarrow>
              loadNotes snap
                (Some (sql_update d (currentNote snap) i),
                 cur\<lparr>modalVisible := False, currentNote := [], editingNoteId := None,
                   page := 0\<rparr>)))"

definition deleteNote :: "view \<Rightarrow> app \<Rightarrow> app" where
  "deleteNote snap = (\<lambda>(dbo, cur).
     case deleteNoteId snap of
       None \<Rightarrow> (dbo, cur)
     | Some i \<Rightarrow>
         (case dbo of
            None \<Rightarrow> (dbo, cur)
          | Some d \<Rightarrow>
              loadNotes snap
                (Some (sql_delete d i),
                 cur\<lparr>modalDeleteVisible := False, deleteNoteId := None, page := 0\<rparr>)))"

definition openEditModal :: "string \<Rightarrow> int \<Rightarrow> app \<Rightarrow> app" where
  "openEditModal text i = (\<lambda>(dbo, cur).
     (dbo, cur\<lparr>currentNote := text, editingNoteId := Some i, modalVisible := True\<rparr>))"

definition openAddModal :: "app \<Rightarrow> app" where
  "openAddModal = (\<lambda>(dbo, cur).
     (dbo, cur\<lparr>currentNote := [], editingNoteId := None, modalVisible := True\<rparr>))"

text \<open>The inline handlers of the JSX, named after the prop or the control.\<close>

definition onChangeText :: "string \<Rightarrow> view \<Rightarrow> app \<Rightarrow> app" where
  "onChangeText text snap = (\<lambda>(dbo, cur).
     loadNotes snap (dbo, cur\<lparr>search := text, page := 0\<rparr>))"

definition onEndReached :: "view \<Rightarrow> app \<Rightarrow> app" where
  "onEndReached snap = (\<lambda>(dbo, cur).
     loadNotes snap (dbo, cur\<lparr>page := page cur + 1\<rparr>))"

definition onPressTrash :: "int \<Rightarrow> app \<Rightarrow> app" where
  "onPressTrash i = (\<lambda>(dbo, cur). (dbo, cur\<lparr>deleteNoteId := Some i, modalDeleteVisible := True\<rparr>))"

definition onPressClose :: "app \<Rightarrow> app" where
  "onPressClose = (\<lambda>(dbo, cur). (dbo, cur\<lparr>modalVisible := False\<rparr>))"

definition onPressDecline :: "app \<Rightarrow> app" where
  "onPressDecline = (\<lambda>(dbo, cur). (dbo, cur\<lparr>modalDeleteVisible := False\<rparr>))"

text \<open>\<^verbatim>\<open>onPress={editingNoteId ? updateNote : addNote}\<close>: \<^verbatim>\<open>null\<close> and \<^verbatim>\<open>0\<close> are falsy.\<close>

definition truthy :: "int option \<Rightarrow> bool" where
  "truthy x = (case x of None \<Rightarrow> False | Some i \<Rightarrow> i \<noteq> 0)"

definition onPressSave :: "view \<Rightarrow> app \<Rightarrow> app" where
  "onPressSave snap = (if truthy (editingNoteId snap) then updateNote snap else addNote snap)"

text \<open>\<^verbatim>\<open>useEffect(() => { initializeDB().then(loadNotes); }, [])\<close>: \<^verbatim>\<open>initializeDB\<close> opens
  \<^verbatim>\<open>notes.db\<close> with whatever it holds (\<open>disk\<close>; \<^verbatim>\<open>CREATE TABLE IF NOT EXISTS\<close> leaves an
  existing table alone), and the \<^verbatim>\<open>loadNotes\<close> it then calls is the closure of the first
  render.\<close>

definition initializeDB :: "database \<Rightarrow> app \<Rightarrow> app" where
  "initializeDB disk = (\<lambda>(dbo, cur). (Some disk, cur))"

definition onMount :: "database \<Rightarrow> app \<Rightarrow> app" where
  "onMount disk a = loadNotes initial_view (initializeDB disk a)"

subsection \<open>Events\<close>

datatype event =
    Mount database
  | ChangeSearch string
  | EndReached
  | PressCard note_row
  | PressTrash int
  | PressAdd
  | PressClose
  | ChangeDraft string
  | PressSave
  | PressConfirm
  | PressDecline

text \<open>An event runs the handler of the current render: the snapshot is the current state.\<close>

fun step :: "app \<Rightarrow> event \<Rightarrow> app" where
  "step a (Mount disk) = onMount disk a"
| "step a (ChangeSearch text) = onChangeText text (snd a) a"
| "step a EndReached = onEndReached (snd a) a"
| "step a (PressCard item) = openEditModal (row_note item) (row_id item) a"
| "step a (PressTrash i) = onPressTrash i a"
| "step a PressAdd = openAddModal a"
| "step a PressClose = onPressClose a"
| "step a (ChangeDraft text) = (fst a, (snd a)\<lparr>currentNote := text\<rparr>)"
| "step a PressSave = onPressSave (snd a) a"
| "step a PressConfirm = deleteNote (snd a) a"
| "step a PressDecline = onPressDecline a"

definition run :: "app \<Rightarrow> event list \<Rightarrow> app" where
  "run = foldl step"

definition initial_app :: app where
  "initial_app = (None, initial_view)"

subsection \<open>Notions used by the properties\<close>

text \<open>The primary key: no two rows of the table share an id.\<close>

definition primary_key :: "database \<Rightarrow> bool" where
  "primary_key d = distinct (map row_id (notes_table d))"

text \<open>A search term without the two pattern characters of \<^verbatim>\<open>LIKE\<close>.\<close>

definition wildcard_free :: "string \<Rightarrow> bool" where
  "wildcard_free t = (CHR ''%'' \<notin> set t \<and> CHR ''_'' \<notin> set t)"

text \<open>No stored note is empty or made of whitespace only.\<close>

definition no_blank_rows :: "database option \<Rightarrow> bool" where
  "no_blank_rows dbo =
     (case dbo of None \<Rightarrow> True | Some d \<Rightarrow> list_all (\<lambda>r. trim (row_note r) \<noteq> []) (notes_table d))"

definition mounts_blank :: "event \<Rightarrow> bool" where
  "mounts_blank e = (case e of Mount disk \<Rightarrow> \<not> no_blank_rows (Some disk) | _ \<Rightarrow> False)"

text \<open>The operations of the store as the handlers issue them: \<^verbatim>\<open>addNote\<close> runs the
  \<^verbatim>\<open>INSERT\<close>, \<^verbatim>\<open>updateNote\<close> the \<^verbatim>\<open>UPDATE\<close>, \<^verbatim>\<open>deleteNote\<close> the \<^verbatim>\<open>DELETE\<close>.\<close>

datatype store_op = Create string | Update int string | Delete int

fun apply_op :: "database \<Rightarrow> store_op \<Rightarrow> database" where
  "apply_op d (Create text) = sql_insert d text"
| "apply_op d (Update i text) = sql_update d text i"
| "apply_op d (Delete i) = sql_delete d i"

definition run_ops :: "store_op list \<Rightarrow> database" where
  "run_ops ops = foldl apply_op empty_db ops"

text \<open>
  The specification's reading of a sequence of operations, independent of the table: the
  notes created (the \<open>k\<close>-th \<open>Create\<close> makes the note with id \<open>k\<close>) minus those deleted, each
  with the text of its latest create or update; an update or a delete of an id that is not
  live changes nothing. The state is the number of creates so far and the live notes.
\<close>

fun spec_op :: "int \<times> (int \<rightharpoonup> string) \<Rightarrow> store_op \<Rightarrow> int \<times> (int \<rightharpoonup> string)" where
  "spec_op (n, m) (Create text) = (n + 1, m(n + 1 \<mapsto> text))"
| "spec_op (n, m) (Update i text) = (n, if i \<in> dom m then m(i \<mapsto> text) else m)"
| "spec_op (n, m) (Delete i) = (n, m(i := None))"

definition spec_notes :: "store_op list \<Rightarrow> (int \<rightharpoonup> string)" where
  "spec_notes ops = snd (foldl spec_op (0, Map.empty) ops)"

text \<open>Concrete stores: \<open>n\<close> notes created one after the other on a fresh table.\<close>

definition store_of :: "string list \<Rightarrow> database" where
  "store_of texts = foldl sql_insert empty_db texts"

text \<open>The rows that match a term, in the order of the \<^verbatim>\<open>SELECT\<close>, before \<^verbatim>\<open>LIMIT\<close> and
  \<^verbatim>\<open>OFFSET\<close> cut a page out of them.\<close>

definition matching :: "database \<Rightarrow> string \<Rightarrow> note_row list" where
  "matching d t =
     sort_key (\<lambda>r. - row_id r) (filter (\<lambda>r. sql_like (like_arg t) (row_note r)) (notes_table d))"

text \<open>The table refines the specification's reading \<open>(n, m)\<close>: the counter is the number of
  creates, ids are unique, positive and at most the counter, and the rows are exactly the live
  notes.\<close>

definition refines :: "database \<Rightarrow> int \<times> (int \<rightharpoonup> string) \<Rightarrow> bool" where
  "refines d sp = (case sp of (n, m) \<Rightarrow>
     sqlite_sequence d = n \<and> 0 \<le> n \<and> primary_key d \<and>
     (\<forall>r\<in>set (notes_table d). 0 < row_id r \<and> row_id r \<le> n) \<and>
     (\<forall>r. r \<in> set (notes_table d) \<longleftrightarrow> m (row_id r) = Some (row_note r)))"

text \<open>Concrete inputs.\<close>

definition ops5 :: "store_op list" where
  "ops5 = [Create ''a'', Create ''b'', Update 1 ''c'', Delete 2, Update 7 ''x'', Create ''d'']"

definition blank_draft_app :: app where
  "blank_draft_app =
     (Some (store_of [''x'']),
      initial_view\<lparr>modalVisible := True, currentNote := ''  '', editingNoteId := Some 1\<rparr>)"

definition notes51 :: database where
  "notes51 = store_of (replicate 51 ''n'')"

definition notes120 :: database where
  "notes120 = store_of (replicate 120 ''n'')"

definition two_notes :: database where
  "two_notes = store_of [''a'', ''b'']"

definition edit_zero_db :: database where
  "edit_zero_db = \<lparr>notes_table = [\<lparr>row_id = 0, row_note = ''x''\<rparr>], sqlite_sequence = 0\<rparr>"

definition edit_zero_view :: view where
  "edit_zero_view = initial_view\<lparr>currentNote := ''y'', editingNoteId := Some 0, modalVisible := True\<rparr>"

definition padded_draft_view :: view where
  "padded_draft_view = initial_view\<lparr>currentNote := ''  a  '', modalVisible := True\<rparr>"

section \<open>Properties\<close>

subsection \<open>\<^verbatim>\<open>LIKE\<close>\<close>

lemma like_percent: "sql_like (CHR ''%'' # ps) s \<longleftrightarrow> (\<exists>b. suffix b s \<and> sql_like ps b)"
  by (induction s) (auto simp: suffix_Cons)

lemma like_only_percent: "sql_like [CHR ''%''] s"
  by (induction s) auto

lemma like_empty_term: "sql_like (like_arg []) s"
  unfolding like_arg_def like_percent using like_only_percent by auto

lemma like_literal_prefix:
  "wildcard_free t \<Longrightarrow>
   sql_like (t @ ps) s \<longleftrightarrow> (\<exists>a b. s = a @ b \<and> map sql_lower a = map sql_lower t \<and> sql_like ps b)"
proof (induction t arbitrary: s)
  case Nil
  then show ?case by simp
next
  case (Cons x t)
  then have wf: "wildcard_free t" and x: "x \<noteq> CHR ''%''" "x \<noteq> CHR ''_''"
    by (auto simp: wildcard_free_def)
  show ?case
  proof (cases s)
    case Nil
    with x show ?thesis by simp
  next
    case (Cons c cs)
    have "sql_like ((x # t) @ ps) s \<longleftrightarrow> sql_lower x = sql_lower c \<and> sql_like (t @ ps) cs"
      using x Cons by simp
    also have "\<dots> \<longleftrightarrow> sql_lower x = sql_lower c \<and>
        (\<exists>a b. cs = a @ b \<and> map sql_lower a = map sql_lower t \<and> sql_like ps b)"
      using Cons.IH [OF wf] by simp
    also have "\<dots> \<longleftrightarrow> (\<exists>a b. s = a @ b \<and> map sql_lower a = map sql_lower (x # t) \<and> sql_like ps b)"
      (is "?L \<longleftrightarrow> ?R")
    proof
      assume ?L
      then obtain a b where "cs = a @ b" "map sql_lower a = map sql_lower t" "sql_like ps b"
        and "sql_lower x = sql_lower c" by blast
      then have "s = (c # a) @ b \<and> map sql_lower (c # a) = map sql_lower (x # t) \<and> sql_like ps b"
        using Cons by simp
      then show ?R by blast
    next
      assume ?R
      then obtain a b where ab: "s = a @ b" "map sql_lower a = map sql_lower (x # t)" "sql_like ps b"
        by blast
      then obtain a' where "a = c # a'" using Cons by (cases a) auto
      with ab Cons show ?L by auto
    qed
    finally show ?thesis .
  qed
qed

lemma like_literal_match:
  "map sql_lower a = map sql_lower t \<Longrightarrow> sql_like ps b \<Longrightarrow> sql_like (t @ ps) (a @ b)"
proof (induction t arbitrary: a)
  case Nil
  then show ?case by simp
next
  case (Cons x t)
  then obtain c a' where a: "a = c # a'" and c: "sql_lower x = sql_lower c"
    and a': "map sql_lower a' = map sql_lower t"
    by (cases a) auto
  have ih: "sql_like (t @ ps) (a' @ b)"
    using Cons.IH [OF a' Cons.prems(2)] .
  show ?case
  proof (cases "x = CHR ''%''")
    case True
    have "sql_like (CHR ''%'' # t @ ps) (a' @ b)"
      unfolding like_percent using ih by blast
    with True a show ?thesis by simp
  next
    case False
    with a c ih show ?thesis by simp
  qed
qed

lemma sublist_map_iff:
  "sublist (map f t) (map f s) \<longleftrightarrow> (\<exists>p a c. s = p @ a @ c \<and> map f a = map f t)"
proof
  assume "sublist (map f t) (map f s)"
  then obtain ps ss where "map f s = ps @ (map f t @ ss)" by (auto simp: sublist_def)
  then obtain p r where s: "s = p @ r" and r: "map f r = map f t @ ss"
    by (metis map_eq_append_conv)
  from r obtain a c where "r = a @ c" "map f a = map f t"
    by (metis map_eq_append_conv)
  with s show "\<exists>p a c. s = p @ a @ c \<and> map f a = map f t" by blast
next
  assume "\<exists>p a c. s = p @ a @ c \<and> map f a = map f t"
  then obtain p a c where "s = p @ a @ c" "map f a = map f t" by blast
  then have "map f s = map f p @ map f t @ map f c" by simp
  then show "sublist (map f t) (map f s)" unfolding sublist_def by blast
qed

lemma like_arg_wildcard_free:
  assumes "wildcard_free t"
  shows "sql_like (like_arg t) s \<longleftrightarrow> sublist (map sql_lower t) (map sql_lower s)"
proof -
  have "sql_like (like_arg t) s \<longleftrightarrow> (\<exists>r. suffix r s \<and> sql_like (t @ [CHR ''%'']) r)"
    by (simp add: like_arg_def like_percent)
  also have "\<dots> \<longleftrightarrow> (\<exists>r. suffix r s \<and> (\<exists>a c. r = a @ c \<and> map sql_lower a = map sql_lower t))"
    by (simp add: like_literal_prefix [OF assms] like_only_percent)
  also have "\<dots> \<longleftrightarrow> (\<exists>p a c. s = p @ a @ c \<and> map sql_lower a = map sql_lower t)"
    by (auto simp: suffix_def)
  finally show ?thesis by (simp add: sublist_map_iff)
qed

lemma like_arg_sublist:
  assumes "sublist (map sql_lower t) (map sql_lower s)"
  shows "sql_like (like_arg t) s"
proof -
  from assms obtain p a c where s: "s = p @ a @ c" and a: "map sql_lower a = map sql_lower t"
    by (auto simp: sublist_map_iff)
  have "sql_like (t @ [CHR ''%'']) (a @ c)"
    by (rule like_literal_match [OF a like_only_percent])
  moreover have "suffix (a @ c) s" using s by (simp add: suffix_def)
  ultimately show ?thesis
    unfolding like_arg_def like_percent by auto
qed

subsection \<open>SELECT\<close>

lemma select_matching: "sql_select d t lim off = take lim (drop off (matching d t))"
  by (simp add: sql_select_def matching_def)

lemma length_matching: "length (matching d t) \<le> length (notes_table d)"
  by (simp add: matching_def)

lemma select_all: "length (notes_table d) \<le> L \<Longrightarrow> sql_select d t L 0 = matching d t"
  using length_matching [of d t] by (simp add: select_matching)

lemma set_matching:
  "set (matching d t) = {r \<in> set (notes_table d). sql_like (like_arg t) (row_note r)}"
  by (auto simp: matching_def)

lemma matching_empty_term: "set (matching d []) = set (notes_table d)"
  by (simp add: set_matching like_empty_term)

lemma length_matching_empty_term: "length (matching d []) = length (notes_table d)"
  by (simp add: matching_def like_empty_term)

lemma distinct_matching: "primary_key d \<Longrightarrow> distinct (map row_id (matching d t))"
  by (auto simp: matching_def primary_key_def distinct_map inj_on_def)

lemma matching_descending:
  assumes "primary_key d"
  shows "sorted_wrt (\<lambda>a b. row_id a > row_id b) (matching d t)"
proof -
  let ?k = "\<lambda>r. - row_id r"
  have "sorted (map ?k (matching d t))"
    by (simp add: matching_def)
  moreover have "distinct (map ?k (matching d t))"
    using distinct_matching [OF assms, of t]
    by (simp add: distinct_map inj_on_def)
  ultimately have "sorted_wrt (<) (map ?k (matching d t))"
    by (simp add: strict_sorted_iff)
  then show ?thesis
    by (simp add: sorted_wrt_map)
qed

lemma select_descending:
  "primary_key d \<Longrightarrow> sorted_wrt (\<lambda>a b. row_id a > row_id b) (sql_select d t lim off)"
  by (simp add: select_matching matching_descending sorted_wrt_take sorted_wrt_drop)

lemma three_pages:
  assumes "length xs = 120"
  shows "length (take 50 (drop 0 xs)) = 50" "length (take 50 (drop 50 xs)) = 50"
    "length (take 50 (drop 100 xs)) = 20"
    "take 50 (drop 0 xs) @ take 50 (drop 50 xs) @ take 50 (drop 100 xs) = xs"
proof -
  show "length (take 50 (drop 0 xs)) = 50" "length (take 50 (drop 50 xs)) = 50"
    "length (take 50 (drop 100 xs)) = 20"
    using assms by simp_all
  have "take 50 (drop 50 xs) @ take 50 (drop 100 xs) = take 100 (drop 50 xs)"
    using take_add [of 50 50 "drop 50 xs"] by (simp add: add.commute)
  moreover have "take 50 xs @ take 100 (drop 50 xs) = take 150 xs"
    using take_add [of 50 100 xs] by simp
  ultimately show "take 50 (drop 0 xs) @ take 50 (drop 50 xs) @ take 50 (drop 100 xs) = xs"
    using assms by simp
qed

subsection \<open>Invariants of the table\<close>

lemma fold_max_bounded: "\<forall>x\<in>set xs. x \<le> s \<Longrightarrow> fold max xs (s::int) = s"
  by (induction xs arbitrary: s) (auto simp: max_def)

lemma fold_max_ge: "(s::int) \<le> fold max xs s"
proof (induction xs arbitrary: s)
  case Nil
  then show ?case by simp
next
  case (Cons x xs)
  have "s \<le> max x s" by simp
  also have "\<dots> \<le> fold max xs (max x s)" by (rule Cons.IH)
  finally show ?case by simp
qed

lemma fold_max_ge_elem: "x \<in> set xs \<Longrightarrow> (x::int) \<le> fold max xs s"
proof (induction xs arbitrary: s)
  case Nil
  then show ?case by simp
next
  case (Cons y ys)
  show ?case
  proof (cases "x = y")
    case True
    have "x \<le> max y s" using True by simp
    also have "\<dots> \<le> fold max ys (max y s)" by (rule fold_max_ge)
    finally show ?thesis by simp
  next
    case False
    with Cons show ?thesis by simp
  qed
qed

lemma next_id_fresh: "r \<in> set (notes_table d) \<Longrightarrow> row_id r < next_id d"
  using fold_max_ge_elem [of "row_id r" "map row_id (notes_table d)" "sqlite_sequence d"]
  by (simp add: next_id_def)

lemma next_id_above_sequence: "sqlite_sequence d < next_id d"
  using fold_max_ge [of "sqlite_sequence d" "map row_id (notes_table d)"]
  by (simp add: next_id_def)

lemma primary_key_insert: "primary_key d \<Longrightarrow> primary_key (sql_insert d t)"
proof -
  assume "primary_key d"
  moreover have "next_id d \<notin> row_id ` set (notes_table d)"
    using next_id_fresh [of _ d] by fastforce
  ultimately show ?thesis
    by (simp add: primary_key_def sql_insert_def)
qed

lemma update_ids: "map row_id (notes_table (sql_update d t i)) = map row_id (notes_table d)"
  by (simp add: sql_update_def comp_def)

lemma primary_key_update: "primary_key d \<Longrightarrow> primary_key (sql_update d t i)"
  by (simp add: primary_key_def update_ids)

lemma primary_key_delete: "primary_key d \<Longrightarrow> primary_key (sql_delete d i)"
  by (simp add: primary_key_def sql_delete_def distinct_map_filter)

lemma update_absent:
  "i \<notin> row_id ` set (notes_table d) \<Longrightarrow> sql_update d t i = d"
proof -
  assume "i \<notin> row_id ` set (notes_table d)"
  then have "map (\<lambda>r. if row_id r = i then r\<lparr>row_note := t\<rparr> else r) (notes_table d) = notes_table d"
    by (intro map_idI) auto
  then show ?thesis by (simp add: sql_update_def)
qed

lemma delete_absent:
  "i \<notin> row_id ` set (notes_table d) \<Longrightarrow> sql_delete d i = d"
proof -
  assume "i \<notin> row_id ` set (notes_table d)"
  then have "filter (\<lambda>r. row_id r \<noteq> i) (notes_table d) = notes_table d"
    by (auto simp: filter_id_conv)
  then show ?thesis by (simp add: sql_delete_def)
qed

subsection \<open>Refinement of the specification's reading\<close>

lemma refines_empty: "refines empty_db (0, Map.empty)"
  by (simp add: refines_def empty_db_def primary_key_def)

lemma refines_dom: "refines d (n, m) \<Longrightarrow> i \<in> dom m \<longleftrightarrow> i \<in> row_id ` set (notes_table d)"
proof -
  assume r: "refines d (n, m)"
  show ?thesis
  proof
    assume "i \<in> dom m"
    then obtain t where "m i = Some t" by auto
    then have "\<lparr>row_id = i, row_note = t\<rparr> \<in> set (notes_table d)"
      using r by (simp add: refines_def)
    then show "i \<in> row_id ` set (notes_table d)" by force
  next
    assume "i \<in> row_id ` set (notes_table d)"
    then show "i \<in> dom m" using r by (auto simp: refines_def)
  qed
qed

lemma refines_insert:
  assumes "refines d (n, m)"
  shows "refines (sql_insert d t) (n + 1, m(n + 1 \<mapsto> t))"
proof -
  from assms have seq: "sqlite_sequence d = n" and nn: "0 \<le> n" and pk: "primary_key d"
    and bd: "\<forall>r\<in>set (notes_table d). 0 < row_id r \<and> row_id r \<le> n"
    and mem: "\<And>r. r \<in> set (notes_table d) \<longleftrightarrow> m (row_id r) = Some (row_note r)"
    by (simp_all add: refines_def)
  have nid: "next_id d = n + 1"
    using bd seq by (simp add: next_id_def fold_max_bounded)
  have "\<And>r. r \<in> set (notes_table (sql_insert d t)) \<longleftrightarrow>
          (m(n + 1 \<mapsto> t)) (row_id r) = Some (row_note r)"
  proof -
    fix r :: note_row
    show "r \<in> set (notes_table (sql_insert d t)) \<longleftrightarrow>
          (m(n + 1 \<mapsto> t)) (row_id r) = Some (row_note r)"
    proof (cases "row_id r = n + 1")
      case True
      then have "r \<notin> set (notes_table d)" using bd by auto
      moreover have "r = \<lparr>row_id = n + 1, row_note = t\<rparr> \<longleftrightarrow> row_note r = t"
        using True by (cases r) simp
      ultimately show ?thesis
        using True by (auto simp: sql_insert_def nid)
    next
      case False
      then have "r \<noteq> \<lparr>row_id = n + 1, row_note = t\<rparr>" by auto
      with False show ?thesis
        by (simp add: sql_insert_def nid mem)
    qed
  qed
  moreover have "\<forall>r\<in>set (notes_table (sql_insert d t)). 0 < row_id r \<and> row_id r \<le> n + 1"
    using bd nn by (fastforce simp: sql_insert_def nid)
  moreover have "sqlite_sequence (sql_insert d t) = n + 1"
    by (simp add: sql_insert_def nid)
  ultimately show ?thesis
    using primary_key_insert [OF pk, of t] nn
    unfolding refines_def by simp
qed

lemma refines_update:
  assumes "refines d (n, m)"
  shows "refines (sql_update d t i) (n, if i \<in> dom m then m(i \<mapsto> t) else m)"
proof (cases "i \<in> dom m")
  case False
  then have "sql_update d t i = d"
    using refines_dom [OF assms, of i] by (simp add: update_absent)
  with False assms show ?thesis by simp
next
  case True
  from assms have seq: "sqlite_sequence d = n" and nn: "0 \<le> n" and pk: "primary_key d"
    and bd: "\<forall>r\<in>set (notes_table d). 0 < row_id r \<and> row_id r \<le> n"
    and mem: "\<And>r. r \<in> set (notes_table d) \<longleftrightarrow> m (row_id r) = Some (row_note r)"
    by (simp_all add: refines_def)
  define u where "u = (\<lambda>r::note_row. if row_id r = i then r\<lparr>row_note := t\<rparr> else r)"
  have u_id: "\<And>q. row_id (u q) = row_id q"
    and u_hit: "\<And>q. row_id q = i \<Longrightarrow> row_note (u q) = t"
    and u_miss: "\<And>q. row_id q \<noteq> i \<Longrightarrow> u q = q"
    by (simp_all add: u_def)
  have tab: "notes_table (sql_update d t i) = map u (notes_table d)"
    by (simp add: sql_update_def u_def)
  from True obtain r0 where r0: "r0 \<in> set (notes_table d)" "row_id r0 = i"
    using refines_dom [OF assms, of i] by auto
  have "\<And>r. r \<in> u ` set (notes_table d) \<longleftrightarrow> (m(i \<mapsto> t)) (row_id r) = Some (row_note r)"
  proof -
    fix r :: note_row
    show "r \<in> u ` set (notes_table d) \<longleftrightarrow> (m(i \<mapsto> t)) (row_id r) = Some (row_note r)"
    proof (cases "row_id r = i")
      case False
      have "r \<in> u ` set (notes_table d) \<longleftrightarrow> r \<in> set (notes_table d)"
      proof
        assume "r \<in> u ` set (notes_table d)"
        then obtain q where q: "q \<in> set (notes_table d)" "r = u q" by blast
        with False have "row_id q \<noteq> i" by (simp add: u_id)
        with q show "r \<in> set (notes_table d)" by (simp add: u_miss)
      next
        assume "r \<in> set (notes_table d)"
        moreover have "r = u r" using False by (simp add: u_miss)
        ultimately show "r \<in> u ` set (notes_table d)" by (rule rev_image_eqI)
      qed
      with False show ?thesis by (simp add: mem)
    next
      case True
      have "r \<in> u ` set (notes_table d) \<longleftrightarrow> t = row_note r"
      proof
        assume "r \<in> u ` set (notes_table d)"
        then obtain q where q: "q \<in> set (notes_table d)" "r = u q" by blast
        with True have "row_id q = i" by (simp add: u_id)
        with q show "t = row_note r" by (simp add: u_hit)
      next
        assume "t = row_note r"
        then have "row_id r = row_id (u r0)" "row_note r = row_note (u r0)"
          using r0 True by (simp_all add: u_id u_hit)
        then have "r = u r0" by (rule note_row.equality) simp
        with r0(1) show "r \<in> u ` set (notes_table d)" by (rule rev_image_eqI)
      qed
      with True show ?thesis by simp
    qed
  qed
  moreover have "\<forall>r\<in>u ` set (notes_table d). 0 < row_id r \<and> row_id r \<le> n"
    using bd by (simp add: u_id)
  moreover have "sqlite_sequence (sql_update d t i) = n"
    by (simp add: sql_update_def seq)
  ultimately show ?thesis
    using True primary_key_update [OF pk, of t i] nn
    unfolding refines_def tab by simp
qed

lemma refines_delete:
  assumes "refines d (n, m)"
  shows "refines (sql_delete d i) (n, m(i := None))"
proof -
  from assms have seq: "sqlite_sequence d = n" and nn: "0 \<le> n" and pk: "primary_key d"
    and bd: "\<forall>r\<in>set (notes_table d). 0 < row_id r \<and> row_id r \<le> n"
    and mem: "\<And>r. r \<in> set (notes_table d) \<longleftrightarrow> m (row_id r) = Some (row_note r)"
    by (simp_all add: refines_def)
  have "\<And>r. r \<in> set (notes_table (sql_delete d i)) \<longleftrightarrow> (m(i := None)) (row_id r) = Some (row_note r)"
    by (auto simp: sql_delete_def mem)
  moreover have "\<forall>r\<in>set (notes_table (sql_delete d i)). 0 < row_id r \<and> row_id r \<le> n"
    using bd by (simp add: sql_delete_def)
  moreover have "sqlite_sequence (sql_delete d i) = n"
    by (simp add: sql_delete_def seq)
  ultimately show ?thesis
    using primary_key_delete [OF pk, of i] nn
    unfolding refines_def by simp
qed

lemma refines_op: "refines d sp \<Longrightarrow> refines (apply_op d x) (spec_op sp x)"
  by (cases sp; cases x) (simp_all add: refines_insert refines_update refines_delete)

lemma refines_foldl: "refines d sp \<Longrightarrow> refines (foldl apply_op d ops) (foldl spec_op sp ops)"
  by (induction ops arbitrary: d sp) (simp_all add: refines_op)

lemma refines_run: "refines (run_ops ops) (foldl spec_op (0, Map.empty) ops)"
  unfolding run_ops_def by (rule refines_foldl [OF refines_empty])

text \<open>
  \<^bold>\<open>C3.\<close> For every finite sequence of create, update and delete operations applied to
  an initially empty store, the rows returned by the search for the empty term at offset 0,
  with a limit of at least the number of live rows, are exactly the notes created minus
  those deleted, each with the text of its most recent create or update, and no id occurs
  twice.
\<close>

theorem search_all_refines_spec:
  assumes "length (notes_table (run_ops ops)) \<le> L"
  shows "set (sql_select (run_ops ops) [] L 0) =
           {r. spec_notes ops (row_id r) = Some (row_note r)} \<and>
         distinct (map row_id (sql_select (run_ops ops) [] L 0))"
proof -
  obtain n m where sp: "foldl spec_op (0, Map.empty) ops = (n, m)"
    by (cases "foldl spec_op (0, Map.empty) ops")
  have r: "refines (run_ops ops) (n, m)"
    using refines_run [of ops] sp by simp
  have sel: "sql_select (run_ops ops) [] L 0 = matching (run_ops ops) []"
    by (rule select_all [OF assms])
  have "set (matching (run_ops ops) []) = {r. m (row_id r) = Some (row_note r)}"
    using r by (auto simp: matching_empty_term refines_def)
  moreover have "distinct (map row_id (matching (run_ops ops) []))"
    using r by (simp add: distinct_matching refines_def)
  ultimately show ?thesis
    using sel sp by (simp add: spec_notes_def)
qed

theorem search_all_refines_spec_witness:
  "length (notes_table (run_ops ops5)) \<le> 2 \<and>
   sql_select (run_ops ops5) [] 2 0 = [\<lparr>row_id = 3, row_note = ''d''\<rparr>, \<lparr>row_id = 1, row_note = ''c''\<rparr>] \<and>
   set (sql_select (run_ops ops5) [] 2 0) = {r. spec_notes ops5 (row_id r) = Some (row_note r)}"
proof -
  have tab: "run_ops ops5 = \<lparr>notes_table = [\<lparr>row_id = 1, row_note = ''c''\<rparr>, \<lparr>row_id = 3, row_note = ''d''\<rparr>], sqlite_sequence = 3\<rparr>"
    by (simp add: ops5_def run_ops_def empty_db_def sql_insert_def sql_update_def sql_delete_def next_id_def)
  have h: "length (notes_table (run_ops ops5)) \<le> 2"
    by (simp add: tab)
  have "sql_select (run_ops ops5) [] 2 0 = [\<lparr>row_id = 3, row_note = ''d''\<rparr>, \<lparr>row_id = 1, row_note = ''c''\<rparr>]"
    by (simp add: tab sql_select_def like_arg_def)
  with h search_all_refines_spec [OF h] show ?thesis by simp
qed

subsection \<open>What the handlers do to the store\<close>

lemma loadNotes_Some:
  "loadNotes snap (Some d, cur) =
     (Some d, cur\<lparr>notes_state :=
        (if page snap = 0 then sql_select d (search snap) 50 0
         else notes_state snap @ sql_select d (search snap) 50 (page snap * 50))\<rparr>)"
  by (simp add: loadNotes_def limit_def)

lemma loadNotes_None: "loadNotes snap (None, cur) = (None, cur)"
  by (simp add: loadNotes_def)

lemma fst_loadNotes: "fst (loadNotes snap a) = fst a"
  by (cases a) (simp add: loadNotes_def Let_def split: option.splits)

lemma loadNotes_keeps_delete_dialog:
  "modalDeleteVisible (snd (loadNotes snap a)) = modalDeleteVisible (snd a)"
  "deleteNoteId (snd (loadNotes snap a)) = deleteNoteId (snd a)"
  by (cases a; simp add: loadNotes_def Let_def split: option.splits)+

lemma fst_addNote:
  "fst (addNote snap (dbo, cur)) =
     (if trim (currentNote snap) = [] then dbo
      else map_option (\<lambda>d. sql_insert d (currentNote snap)) dbo)"
  by (simp add: addNote_def fst_loadNotes split: option.splits)

lemma fst_updateNote:
  "fst (updateNote snap (dbo, cur)) =
     (if trim (currentNote snap) = [] then dbo
      else case editingNoteId snap of
        None \<Rightarrow> dbo
      | Some i \<Rightarrow> map_option (\<lambda>d. sql_update d (currentNote snap) i) dbo)"
  by (simp add: updateNote_def fst_loadNotes split: option.splits)

lemma fst_deleteNote:
  "fst (deleteNote snap (dbo, cur)) =
     (case deleteNoteId snap of
        None \<Rightarrow> dbo
      | Some i \<Rightarrow> map_option (\<lambda>d. sql_delete d i) dbo)"
  by (simp add: deleteNote_def fst_loadNotes split: option.splits)

subsection \<open>Saving a blank draft\<close>

lemma addNote_blank: "trim (currentNote snap) = [] \<Longrightarrow> addNote snap a = a"
  by (cases a) (simp add: addNote_def)

lemma updateNote_blank: "trim (currentNote snap) = [] \<Longrightarrow> updateNote snap a = a"
  by (cases a) (simp add: updateNote_def)

lemma no_blank_insert:
  "no_blank_rows (Some d) \<Longrightarrow> trim t \<noteq> [] \<Longrightarrow> no_blank_rows (Some (sql_insert d t))"
  by (simp add: no_blank_rows_def sql_insert_def)

lemma no_blank_update:
  "no_blank_rows (Some d) \<Longrightarrow> trim t \<noteq> [] \<Longrightarrow> no_blank_rows (Some (sql_update d t i))"
  by (auto simp: no_blank_rows_def sql_update_def list_all_iff)

lemma no_blank_delete:
  "no_blank_rows (Some d) \<Longrightarrow> no_blank_rows (Some (sql_delete d i))"
  by (simp add: no_blank_rows_def sql_delete_def list_all_iff)

lemma no_blank_step:
  assumes "no_blank_rows (fst a)" "\<not> mounts_blank e"
  shows "no_blank_rows (fst (step a e))"
proof -
  obtain dbo v where a: "a = (dbo, v)" by (cases a)
  show ?thesis
  proof (cases e)
    case (Mount disk)
    with assms a show ?thesis
      by (simp add: onMount_def initializeDB_def fst_loadNotes mounts_blank_def)
  next
    case PressSave
    show ?thesis
    proof (cases dbo)
      case None
      with a PressSave show ?thesis
        by (simp add: onPressSave_def fst_addNote fst_updateNote no_blank_rows_def
            split: option.splits)
    next
      case (Some d)
      with a PressSave assms(1) show ?thesis
        by (simp add: onPressSave_def fst_addNote fst_updateNote no_blank_insert no_blank_update
            split: option.splits)
    qed
  next
    case PressConfirm
    with a assms(1) show ?thesis
      by (cases dbo) (simp_all add: fst_deleteNote no_blank_delete split: option.splits)
  qed (use a assms(1) in \<open>simp_all add: onChangeText_def onEndReached_def fst_loadNotes
        openEditModal_def onPressTrash_def openAddModal_def onPressClose_def onPressDecline_def\<close>)
qed

lemma store_of_x: "store_of [''x''] = \<lparr>notes_table = [\<lparr>row_id = 1, row_note = ''x''\<rparr>], sqlite_sequence = 1\<rparr>"
  by (simp add: store_of_def empty_db_def sql_insert_def next_id_def)

text \<open>
  \<^bold>\<open>C6.\<close> In any state of the add/edit dialog, for a new note as for an existing one,
  a save while the draft trims to the empty string changes nothing: the store, the
  dialog's visibility and the draft stay as they are. Consequently no event other than
  opening a store that already holds a blank note puts a blank note into the store.
\<close>

theorem save_blank_draft_is_noop:
  "(trim (currentNote (snd a)) = [] \<longrightarrow> step a PressSave = a) \<and>
   (no_blank_rows (fst a) \<and> \<not> mounts_blank e \<longrightarrow> no_blank_rows (fst (step a e)))"
  by (simp add: onPressSave_def addNote_blank updateNote_blank no_blank_step)

theorem save_blank_draft_is_noop_witness:
  "trim (currentNote (snd blank_draft_app)) = [] \<and>
   no_blank_rows (fst blank_draft_app) \<and> \<not> mounts_blank PressSave \<and>
   step blank_draft_app PressSave = blank_draft_app \<and>
   modalVisible (snd (step blank_draft_app PressSave)) \<and>
   currentNote (snd (step blank_draft_app PressSave)) = ''  '' \<and>
   no_blank_rows (fst (step blank_draft_app PressSave))"
proof -
  have h1: "trim (currentNote (snd blank_draft_app)) = []"
    by (simp add: blank_draft_app_def trim_def is_ws_def)
  have h2: "no_blank_rows (fst blank_draft_app)"
    by (simp add: blank_draft_app_def store_of_x no_blank_rows_def trim_def is_ws_def)
  have h3: "\<not> mounts_blank PressSave"
    by (simp add: mounts_blank_def)
  have "step blank_draft_app PressSave = blank_draft_app"
    using save_blank_draft_is_noop [of blank_draft_app PressSave] h1 by blast
  moreover have "modalVisible (snd blank_draft_app)" "currentNote (snd blank_draft_app) = ''  ''"
    by (simp_all add: blank_draft_app_def)
  ultimately show ?thesis using h1 h2 h3 by simp
qed

subsection \<open>The delete-confirmation dialog\<close>

lemma confirm_needs_target_step:
  assumes "modalDeleteVisible (snd a) \<longrightarrow> deleteNoteId (snd a) \<noteq> None"
  shows "modalDeleteVisible (snd (step a e)) \<longrightarrow> deleteNoteId (snd (step a e)) \<noteq> None"
proof -
  obtain dbo v where a: "a = (dbo, v)" by (cases a)
  show ?thesis using assms a
    by (cases e)
       (auto simp: onMount_def initializeDB_def loadNotes_keeps_delete_dialog onChangeText_def
          onEndReached_def openEditModal_def onPressTrash_def openAddModal_def onPressClose_def
          onPressDecline_def onPressSave_def addNote_def updateNote_def deleteNote_def
          split: option.splits)
qed

lemma confirm_needs_target_run:
  "modalDeleteVisible (snd a) \<longrightarrow> deleteNoteId (snd a) \<noteq> None \<Longrightarrow>
   modalDeleteVisible (snd (run a evs)) \<longrightarrow> deleteNoteId (snd (run a evs)) \<noteq> None"
proof (induction evs rule: rev_induct)
  case Nil
  then show ?case by (simp add: run_def)
next
  case (snoc e evs)
  have "run a (evs @ [e]) = step (run a evs) e"
    by (simp add: run_def)
  with confirm_needs_target_step [OF snoc.IH [OF snoc.prems], of e] show ?case
    by simp
qed

text \<open>
  \<^bold>\<open>C8, as the code has it.\<close> Declining the delete confirmation only hides the dialog:
  the store and every other cell of the view state, \<^verbatim>\<open>deleteNoteId\<close> included, keep their
  values. In every state reached from the initial one, \<^verbatim>\<open>deleteNoteId\<close> is set whenever
  the delete-confirmation dialog is open.
\<close>

theorem decline_keeps_target:
  "onPressDecline (dbo, v) = (dbo, v\<lparr>modalDeleteVisible := False\<rparr>) \<and>
   deleteNoteId (snd (onPressDecline (dbo, v))) = deleteNoteId v \<and>
   (modalDeleteVisible (snd (run initial_app evs)) \<longrightarrow>
      deleteNoteId (snd (run initial_app evs)) \<noteq> None)"
  using confirm_needs_target_run [of initial_app evs]
  by (simp add: onPressDecline_def initial_app_def initial_view_def)

theorem decline_keeps_target_witness:
  "modalDeleteVisible (snd (run initial_app [PressTrash 7])) \<and>
   deleteNoteId (snd (run initial_app [PressTrash 7])) \<noteq> None"
proof -
  have "modalDeleteVisible (snd (run initial_app [PressTrash 7]))"
    by (simp add: run_def initial_app_def onPressTrash_def)
  with decline_keeps_target [of None initial_view "[PressTrash 7]"] show ?thesis by blast
qed

text \<open>
  \<^bold>\<open>C8, as stated, fails.\<close> After the trash icon of note 7 and a decline, the dialog is
  closed and \<^verbatim>\<open>deleteNoteId\<close> is still 7.
\<close>

theorem decline_leaves_target_set:
  "\<not> (\<not> modalDeleteVisible (snd (run initial_app [PressTrash 7, PressDecline])) \<longrightarrow>
        deleteNoteId (snd (run initial_app [PressTrash 7, PressDecline])) = None)"
  by (simp add: run_def initial_app_def initial_view_def onPressTrash_def onPressDecline_def)

subsection \<open>Search and pagination\<close>

text \<open>
  \<^bold>\<open>C4.\<close> On a table with unique ids, for every term, limit and offset, the \<^verbatim>\<open>SELECT\<close>
  returns rows with strictly descending ids; it is the list of all matching rows without
  its first \<open>off\<close> elements, cut to at most \<open>lim\<close> rows; the matching rows are those whose
  text satisfies the \<^verbatim>\<open>LIKE\<close>, and with the empty term they are all rows. With 120 rows and
  limit 50, the pages at offsets 0, 50 and 100 have 50, 50 and 20 rows, and their
  concatenation is the result for limit 120, offset 0, which has no duplicates and
  holds every row.
\<close>

theorem select_is_paged_descending:
  assumes "primary_key d"
  shows "sorted_wrt (\<lambda>a b. row_id a > row_id b) (sql_select d t lim off) \<and>
    sql_select d t lim off = take lim (drop off (sql_select d t (length (notes_table d)) 0)) \<and>
    length (sql_select d t lim off) \<le> lim \<and>
    set (sql_select d t (length (notes_table d)) 0) =
      {r \<in> set (notes_table d). sql_like (like_arg t) (row_note r)} \<and>
    set (sql_select d [] (length (notes_table d)) 0) = set (notes_table d) \<and>
    (length (notes_table d) = 120 \<longrightarrow>
       length (sql_select d [] 50 0) = 50 \<and>
       length (sql_select d [] 50 50) = 50 \<and>
       length (sql_select d [] 50 100) = 20 \<and>
       sql_select d [] 50 0 @ sql_select d [] 50 50 @ sql_select d [] 50 100 =
         sql_select d [] 120 0 \<and>
       distinct (sql_select d [] 120 0) \<and>
       set (sql_select d [] 120 0) = set (notes_table d))"
proof -
  have full: "sql_select d t (length (notes_table d)) 0 = matching d t" for t
    by (simp add: select_all)
  have pages: "length (notes_table d) = 120 \<longrightarrow>
       length (sql_select d [] 50 0) = 50 \<and>
       length (sql_select d [] 50 50) = 50 \<and>
       length (sql_select d [] 50 100) = 20 \<and>
       sql_select d [] 50 0 @ sql_select d [] 50 50 @ sql_select d [] 50 100 =
         sql_select d [] 120 0 \<and>
       distinct (sql_select d [] 120 0) \<and>
       set (sql_select d [] 120 0) = set (notes_table d)"
  proof
    assume n: "length (notes_table d) = 120"
    then have len: "length (matching d []) = 120"
      by (simp add: length_matching_empty_term)
    have all: "sql_select d [] 120 0 = matching d []"
      using n by (simp add: select_all)
    have "distinct (map row_id (matching d []))"
      by (rule distinct_matching [OF assms])
    then have "distinct (matching d [])"
      by (simp add: distinct_map)
    with three_pages [OF len] all show
      "length (sql_select d [] 50 0) = 50 \<and>
       length (sql_select d [] 50 50) = 50 \<and>
       length (sql_select d [] 50 100) = 20 \<and>
       sql_select d [] 50 0 @ sql_select d [] 50 50 @ sql_select d [] 50 100 =
         sql_select d [] 120 0 \<and>
       distinct (sql_select d [] 120 0) \<and>
       set (sql_select d [] 120 0) = set (notes_table d)"
      by (simp add: select_matching matching_empty_term)
  qed
  have "sorted_wrt (\<lambda>a b. row_id a > row_id b) (sql_select d t lim off)"
    by (rule select_descending [OF assms])
  moreover have "sql_select d t lim off = take lim (drop off (sql_select d t (length (notes_table d)) 0))"
    unfolding full by (rule select_matching)
  moreover have "length (sql_select d t lim off) \<le> lim"
    by (simp add: select_matching)
  moreover have "set (sql_select d t (length (notes_table d)) 0) =
      {r \<in> set (notes_table d). sql_like (like_arg t) (row_note r)}"
    unfolding full by (rule set_matching)
  moreover have "set (sql_select d [] (length (notes_table d)) 0) = set (notes_table d)"
    unfolding full by (rule matching_empty_term)
  ultimately show ?thesis using pages by blast
qed

theorem select_is_paged_descending_witness:
  "primary_key notes120 \<and> length (notes_table notes120) = 120 \<and>
   length (sql_select notes120 [] 50 0) = 50 \<and>
   length (sql_select notes120 [] 50 50) = 50 \<and>
   length (sql_select notes120 [] 50 100) = 20 \<and>
   sql_select notes120 [] 50 0 @ sql_select notes120 [] 50 50 @ sql_select notes120 [] 50 100 =
     sql_select notes120 [] 120 0 \<and>
   distinct (sql_select notes120 [] 120 0) \<and>
   sorted_wrt (\<lambda>a b. row_id a > row_id b) (sql_select notes120 [] 50 50)"
proof -
  have h1: "primary_key notes120"
    by code_simp
  have h2: "length (notes_table notes120) = 120"
    by code_simp
  from select_is_paged_descending [OF h1, of "[]" 50 50] h1 h2 show ?thesis
    by blast
qed


text \<open>
  \<^bold>\<open>C5, as the code has it.\<close> With a limit of at least the number of rows and offset 0,
  a stored note is returned if and only if its text matches the \<^verbatim>\<open>LIKE\<close> pattern
  \<^verbatim>\<open>%term%\<close>. It is returned whenever the term occurs in the text as a substring up to the
  case of the letters A..Z; when the term contains neither \<^verbatim>\<open>%\<close> nor \<^verbatim>\<open>_\<close>, it is returned
  only then.
\<close>

theorem search_matches_like_pattern:
  assumes "length (notes_table d) \<le> L" "r \<in> set (notes_table d)"
  shows "(r \<in> set (sql_select d t L 0) \<longleftrightarrow> sql_like (like_arg t) (row_note r)) \<and>
    (sublist (map sql_lower t) (map sql_lower (row_note r)) \<longrightarrow> r \<in> set (sql_select d t L 0)) \<and>
    (wildcard_free t \<longrightarrow>
       (r \<in> set (sql_select d t L 0) \<longleftrightarrow> sublist (map sql_lower t) (map sql_lower (row_note r))))"
proof -
  have "r \<in> set (sql_select d t L 0) \<longleftrightarrow> sql_like (like_arg t) (row_note r)"
    using assms by (simp add: select_all set_matching)
  then show ?thesis
    using like_arg_sublist [of t "row_note r"] like_arg_wildcard_free [of t "row_note r"]
    by blast
qed

lemma store_of_A: "store_of [''A''] = \<lparr>notes_table = [\<lparr>row_id = 1, row_note = ''A''\<rparr>], sqlite_sequence = 1\<rparr>"
  by (simp add: store_of_def empty_db_def sql_insert_def next_id_def)

theorem search_matches_like_pattern_witness:
  "length (notes_table (store_of [''A''])) \<le> 50 \<and>
   \<lparr>row_id = 1, row_note = ''A''\<rparr> \<in> set (notes_table (store_of [''A''])) \<and>
   wildcard_free ''a'' \<and> sublist (map sql_lower ''a'') (map sql_lower ''A'') \<and>
   \<lparr>row_id = 1, row_note = ''A''\<rparr> \<in> set (sql_select (store_of [''A'']) ''a'' 50 0)"
proof -
  have h1: "length (notes_table (store_of [''A''])) \<le> 50"
    and h2: "\<lparr>row_id = 1, row_note = ''A''\<rparr> \<in> set (notes_table (store_of [''A'']))"
    by (simp_all add: store_of_A)
  have h3: "wildcard_free ''a''"
    by (simp add: wildcard_free_def)
  have h4: "sublist (map sql_lower ''a'') (map sql_lower ''A'')"
    by (simp add: sql_lower_def)
  have h4': "sublist (map sql_lower ''a'')
      (map sql_lower (row_note \<lparr>row_id = 1, row_note = ''A''\<rparr>))"
    by (simp add: sql_lower_def)
  have m: "\<lparr>row_id = 1, row_note = ''A''\<rparr> \<in> set (sql_select (store_of [''A'']) ''a'' 50 0)"
    by (rule mp [OF conjunct1 [OF conjunct2 [OF search_matches_like_pattern [OF h1 h2, of "''a''"]]] h4'])
  show ?thesis
    by (intro conjI h1 h2 h3 h4 m)
qed

text \<open>
  \<^bold>\<open>C5, as stated, fails.\<close> The term \<^verbatim>\<open>_\<close> finds the note \<^verbatim>\<open>x\<close>, in which it does not occur,
  and the term \<^verbatim>\<open>a\<close> finds the note \<^verbatim>\<open>A\<close>.
\<close>

theorem search_is_not_literal_substring:
  "\<not> (\<lparr>row_id = 1, row_note = ''x''\<rparr> \<in> set (sql_select (store_of [''x'']) ''_'' 50 0)
        \<longleftrightarrow> sublist ''_'' ''x'') \<and>
   \<not> (\<lparr>row_id = 1, row_note = ''A''\<rparr> \<in> set (sql_select (store_of [''A'']) ''a'' 50 0)
        \<longleftrightarrow> sublist ''a'' ''A'')"
  by (simp add: store_of_x store_of_A sql_select_def like_arg_def sql_lower_def sublist_Cons_right)

subsection \<open>Update and delete by id\<close>

lemma update_present:
  assumes "primary_key d" "k < length (notes_table d)" "row_id (notes_table d ! k) = j"
  shows "sql_update d t j = d\<lparr>notes_table := (notes_table d)[k := (notes_table d ! k)\<lparr>row_note := t\<rparr>]\<rparr>"
proof -
  let ?rows = "notes_table d"
  let ?u = "\<lambda>r. if row_id r = j then r\<lparr>row_note := t\<rparr> else r"
  have "map ?u ?rows = ?rows[k := (?rows ! k)\<lparr>row_note := t\<rparr>]"
  proof (rule nth_equalityI)
    show "length (map ?u ?rows) = length (?rows[k := (?rows ! k)\<lparr>row_note := t\<rparr>])"
      by simp
  next
    fix n
    assume "n < length (map ?u ?rows)"
    then have n: "n < length ?rows" by simp
    show "map ?u ?rows ! n = ?rows[k := (?rows ! k)\<lparr>row_note := t\<rparr>] ! n"
    proof (cases "n = k")
      case True
      with assms show ?thesis by simp
    next
      case False
      have "map row_id ?rows ! n \<noteq> map row_id ?rows ! k"
        using assms(1,2) n False by (simp add: primary_key_def nth_eq_iff_index_eq del: nth_map)
      then have "row_id (?rows ! n) \<noteq> j"
        using assms(2,3) n by simp
      with n False show ?thesis by simp
    qed
  qed
  then show ?thesis by (simp add: sql_update_def)
qed

lemma delete_present:
  assumes "primary_key d" "k < length (notes_table d)" "row_id (notes_table d ! k) = j"
  shows "sql_delete d j = d\<lparr>notes_table := take k (notes_table d) @ drop (Suc k) (notes_table d)\<rparr>"
proof -
  let ?rows = "notes_table d"
  let ?A = "take k ?rows" and ?B = "drop (Suc k) ?rows"
  have split: "?rows = ?A @ (?rows ! k) # ?B"
    using assms(2) by (rule id_take_nth_drop)
  have "distinct (map row_id (?A @ (?rows ! k) # ?B))"
    using assms(1) split by (simp add: primary_key_def)
  then have "j \<notin> row_id ` set ?A" "j \<notin> row_id ` set ?B"
    using assms(3) by auto
  then have "filter (\<lambda>r. row_id r \<noteq> j) ?A = ?A" "filter (\<lambda>r. row_id r \<noteq> j) ?B = ?B"
    by (auto simp: filter_id_conv)
  moreover have "filter (\<lambda>r. row_id r \<noteq> j) ?rows =
      filter (\<lambda>r. row_id r \<noteq> j) ?A @ filter (\<lambda>r. row_id r \<noteq> j) (?rows ! k # ?B)"
    using split by (metis filter_append)
  ultimately have "filter (\<lambda>r. row_id r \<noteq> j) ?rows = ?A @ ?B"
    using assms(3) by simp
  then show ?thesis by (simp add: sql_delete_def)
qed

text \<open>
  \<^bold>\<open>C7.\<close> For an id \<open>i\<close> that no row has, the \<^verbatim>\<open>UPDATE\<close> and the \<^verbatim>\<open>DELETE\<close> return the
  store as it was. For the id \<open>j\<close> of the row at position \<open>k\<close> of a table with unique ids,
  the \<^verbatim>\<open>UPDATE\<close> replaces the text of that row and nothing else, and the \<^verbatim>\<open>DELETE\<close> removes
  that row and nothing else. \<^verbatim>\<open>updateNote\<close> (with a draft that does not trim to empty) and
  \<^verbatim>\<open>deleteNote\<close> leave the store as these statements do, whether the id is present or not:
  the model of either handler has no failing branch.
\<close>

theorem update_delete_by_id:
  "(i \<notin> row_id ` set (notes_table d) \<longrightarrow> sql_update d t i = d \<and> sql_delete d i = d) \<and>
   (primary_key d \<and> k < length (notes_table d) \<and> row_id (notes_table d ! k) = j \<longrightarrow>
      sql_update d t j =
        d\<lparr>notes_table := (notes_table d)[k := (notes_table d ! k)\<lparr>row_note := t\<rparr>]\<rparr> \<and>
      sql_delete d j =
        d\<lparr>notes_table := take k (notes_table d) @ drop (Suc k) (notes_table d)\<rparr>) \<and>
   (editingNoteId snap = Some i \<and> trim (currentNote snap) \<noteq> [] \<longrightarrow>
      fst (updateNote snap (Some d, cur)) = Some (sql_update d (currentNote snap) i)) \<and>
   (deleteNoteId snap = Some i \<longrightarrow>
      fst (deleteNote snap (Some d, cur)) = Some (sql_delete d i))"
proof (intro conjI impI)
  assume "i \<notin> row_id ` set (notes_table d)"
  then show "sql_update d t i = d" "sql_delete d i = d"
    by (rule update_absent, rule delete_absent)
next
  assume "primary_key d \<and> k < length (notes_table d) \<and> row_id (notes_table d ! k) = j"
  then have h: "primary_key d" "k < length (notes_table d)" "row_id (notes_table d ! k) = j"
    by simp_all
  show "sql_update d t j =
        d\<lparr>notes_table := (notes_table d)[k := (notes_table d ! k)\<lparr>row_note := t\<rparr>]\<rparr>"
    by (rule update_present [OF h])
  show "sql_delete d j =
        d\<lparr>notes_table := take k (notes_table d) @ drop (Suc k) (notes_table d)\<rparr>"
    by (rule delete_present [OF h])
next
  assume "editingNoteId snap = Some i \<and> trim (currentNote snap) \<noteq> []"
  then show "fst (updateNote snap (Some d, cur)) = Some (sql_update d (currentNote snap) i)"
    by (simp add: fst_updateNote)
next
  assume "deleteNoteId snap = Some i"
  then show "fst (deleteNote snap (Some d, cur)) = Some (sql_delete d i)"
    by (simp add: fst_deleteNote)
qed

lemma two_notes_rows:
  "two_notes = \<lparr>notes_table = [\<lparr>row_id = 1, row_note = ''a''\<rparr>, \<lparr>row_id = 2, row_note = ''b''\<rparr>],
     sqlite_sequence = 2\<rparr>"
  by (simp add: two_notes_def store_of_def empty_db_def sql_insert_def next_id_def)

theorem update_delete_by_id_witness:
  "7 \<notin> row_id ` set (notes_table two_notes) \<and>
   primary_key two_notes \<and> 0 < length (notes_table two_notes) \<and>
   row_id (notes_table two_notes ! 0) = 1 \<and>
   editingNoteId (initial_view\<lparr>currentNote := ''c'', editingNoteId := Some 7, deleteNoteId := Some 7\<rparr>) = Some 7 \<and>
   trim (currentNote (initial_view\<lparr>currentNote := ''c'', editingNoteId := Some 7, deleteNoteId := Some 7\<rparr>)) \<noteq> [] \<and>
   deleteNoteId (initial_view\<lparr>currentNote := ''c'', editingNoteId := Some 7, deleteNoteId := Some 7\<rparr>) = Some 7 \<and>
   sql_update two_notes ''c'' 7 = two_notes \<and> sql_delete two_notes 7 = two_notes \<and>
   notes_table (sql_update two_notes ''c'' 1) =
     [\<lparr>row_id = 1, row_note = ''c''\<rparr>, \<lparr>row_id = 2, row_note = ''b''\<rparr>] \<and>
   notes_table (sql_delete two_notes 1) = [\<lparr>row_id = 2, row_note = ''b''\<rparr>] \<and>
   fst (updateNote (initial_view\<lparr>currentNote := ''c'', editingNoteId := Some 7, deleteNoteId := Some 7\<rparr>)
          (Some two_notes, initial_view)) = Some two_notes \<and>
   fst (deleteNote (initial_view\<lparr>currentNote := ''c'', editingNoteId := Some 7, deleteNoteId := Some 7\<rparr>)
          (Some two_notes, initial_view)) = Some two_notes"
proof -
  let ?snap = "initial_view\<lparr>currentNote := ''c'', editingNoteId := Some 7, deleteNoteId := Some 7\<rparr>"
  have h1: "7 \<notin> row_id ` set (notes_table two_notes)"
    by (simp add: two_notes_rows)
  have h2: "primary_key two_notes \<and> 0 < length (notes_table two_notes) \<and>
      row_id (notes_table two_notes ! 0) = 1"
    by (simp add: two_notes_rows primary_key_def)
  have h3: "editingNoteId ?snap = Some 7 \<and> trim (currentNote ?snap) \<noteq> []"
    by (simp add: trim_def is_ws_def)
  have h4: "deleteNoteId ?snap = Some 7"
    by simp
  note T = update_delete_by_id [of 7 two_notes "''c''" 0 1 ?snap initial_view]
  have a: "sql_update two_notes ''c'' 7 = two_notes \<and> sql_delete two_notes 7 = two_notes"
    using T h1 by blast
  have b: "sql_update two_notes ''c'' 1 =
        two_notes\<lparr>notes_table := (notes_table two_notes)[0 := (notes_table two_notes ! 0)\<lparr>row_note := ''c''\<rparr>]\<rparr> \<and>
      sql_delete two_notes 1 =
        two_notes\<lparr>notes_table := take 0 (notes_table two_notes) @ drop (Suc 0) (notes_table two_notes)\<rparr>"
    using T h2 by blast
  have c: "fst (updateNote ?snap (Some two_notes, initial_view)) = Some (sql_update two_notes (currentNote ?snap) 7)"
    using T h3 by blast
  have d: "fst (deleteNote ?snap (Some two_notes, initial_view)) = Some (sql_delete two_notes 7)"
    using T h4 by blast
  have b1: "notes_table (sql_update two_notes ''c'' 1) =
     [\<lparr>row_id = 1, row_note = ''c''\<rparr>, \<lparr>row_id = 2, row_note = ''b''\<rparr>]"
    by (simp add: conjunct1 [OF b]) (simp add: two_notes_rows)
  have b2: "notes_table (sql_delete two_notes 1) = [\<lparr>row_id = 2, row_note = ''b''\<rparr>]"
    by (simp add: conjunct2 [OF b]) (simp add: two_notes_rows)
  have c': "fst (updateNote ?snap (Some two_notes, initial_view)) = Some two_notes"
    using c a by simp
  have d': "fst (deleteNote ?snap (Some two_notes, initial_view)) = Some two_notes"
    using d a by simp
  show ?thesis
    using h1 h2 h3 h4 a b1 b2 c' d' by (intro conjI) simp_all
qed

subsection \<open>Saving the draft\<close>

lemma insert_is_found:
  assumes "length (notes_table d) < L"
  shows "\<lparr>row_id = next_id d, row_note = t\<rparr> \<in> set (sql_select (sql_insert d t) [] L 0)"
proof -
  have "length (notes_table (sql_insert d t)) \<le> L"
    using assms by (simp add: sql_insert_def)
  then have "set (sql_select (sql_insert d t) [] L 0) = set (notes_table (sql_insert d t))"
    by (simp add: select_all matching_empty_term)
  then show ?thesis by (simp add: sql_insert_def)
qed

text \<open>
  \<^bold>\<open>C9.\<close> A save of a new note whose draft does not trim to the empty string inserts the
  draft as it is, untrimmed: the store after the save is the store after the \<^verbatim>\<open>INSERT\<close> of
  the draft, whose new row carries the draft's text, and the search for the empty term
  with a sufficient limit returns that row. Saving \<^verbatim>\<open>"  a  "\<close> stores \<^verbatim>\<open>"  a  "\<close>.
\<close>

theorem add_persists_draft_verbatim:
  assumes "trim (currentNote v) \<noteq> []" "\<not> truthy (editingNoteId v)" "length (notes_table d) < L"
  shows "fst (step (Some d, v) PressSave) = Some (sql_insert d (currentNote v)) \<and>
    notes_table (sql_insert d (currentNote v)) =
      notes_table d @ [\<lparr>row_id = next_id d, row_note = currentNote v\<rparr>] \<and>
    \<lparr>row_id = next_id d, row_note = currentNote v\<rparr> \<in>
      set (sql_select (sql_insert d (currentNote v)) [] L 0)"
  using assms by (simp add: onPressSave_def fst_addNote insert_is_found) (simp add: sql_insert_def)

theorem add_persists_draft_verbatim_witness:
  "trim (currentNote padded_draft_view) \<noteq> [] \<and> \<not> truthy (editingNoteId padded_draft_view) \<and>
   length (notes_table empty_db) < 1 \<and>
   fst (step (Some empty_db, padded_draft_view) PressSave) =
     Some \<lparr>notes_table = [\<lparr>row_id = 1, row_note = ''  a  ''\<rparr>], sqlite_sequence = 1\<rparr> \<and>
   \<lparr>row_id = 1, row_note = ''  a  ''\<rparr> \<in> set (sql_select (sql_insert empty_db ''  a  '') [] 1 0)"
proof -
  have h1: "trim (currentNote padded_draft_view) \<noteq> []"
    by (simp add: padded_draft_view_def trim_def is_ws_def)
  have h2: "\<not> truthy (editingNoteId padded_draft_view)"
    by (simp add: padded_draft_view_def initial_view_def truthy_def)
  have h3: "length (notes_table empty_db) < 1"
    by (simp add: empty_db_def)
  have ins: "sql_insert empty_db ''  a  '' =
      \<lparr>notes_table = [\<lparr>row_id = 1, row_note = ''  a  ''\<rparr>], sqlite_sequence = 1\<rparr>"
    by (simp add: sql_insert_def empty_db_def next_id_def)
  have nid: "next_id empty_db = 1"
    by (simp add: empty_db_def next_id_def)
  have cur: "currentNote padded_draft_view = ''  a  ''"
    by (simp add: padded_draft_view_def)
  from add_persists_draft_verbatim [OF h1 h2 h3] h1 h2 h3 show ?thesis
    unfolding cur nid ins by simp
qed

lemma run_ops_positive_ids: "r \<in> set (notes_table (run_ops ops)) \<Longrightarrow> 0 < row_id r"
proof -
  obtain n m where "foldl spec_op (0, Map.empty) ops = (n, m)"
    by (cases "foldl spec_op (0, Map.empty) ops")
  then have "refines (run_ops ops) (n, m)"
    using refines_run [of ops] by simp
  then show "r \<in> set (notes_table (run_ops ops)) \<Longrightarrow> 0 < row_id r"
    by (simp add: refines_def)
qed

text \<open>
  \<^bold>\<open>C10.\<close> A save takes the update path exactly when \<^verbatim>\<open>editingNoteId\<close> is neither \<^verbatim>\<open>null\<close>
  nor 0. With a draft that does not trim to empty: for an id other than 0 the store
  after the save is the store after the \<^verbatim>\<open>UPDATE\<close> of that id; for the id 0 it is the store
  after an \<^verbatim>\<open>INSERT\<close>, which keeps every existing row and appends a new one. The store
  does not assign the id 0: the id after a non-negative counter is not 0, and no row of a
  table built from the empty one has the id 0.
\<close>

theorem save_routes_on_truthiness:
  "step a PressSave =
     (if editingNoteId (snd a) = None \<or> editingNoteId (snd a) = Some 0 then addNote (snd a) a
      else updateNote (snd a) a) \<and>
   (trim (currentNote v) \<noteq> [] \<longrightarrow>
     (editingNoteId v = Some i \<and> i \<noteq> 0 \<longrightarrow>
        fst (step (Some d, v) PressSave) = Some (sql_update d (currentNote v) i)) \<and>
     (editingNoteId v = Some 0 \<longrightarrow>
        fst (step (Some d, v) PressSave) = Some (sql_insert d (currentNote v)) \<and>
        notes_table (sql_insert d (currentNote v)) =
          notes_table d @ [\<lparr>row_id = next_id d, row_note = currentNote v\<rparr>])) \<and>
   (0 \<le> sqlite_sequence d \<longrightarrow> next_id d \<noteq> 0) \<and>
   (\<forall>r\<in>set (notes_table (run_ops ops)). row_id r \<noteq> 0)"
proof -
  have "0 \<le> sqlite_sequence d \<longrightarrow> next_id d \<noteq> 0"
    using next_id_above_sequence [of d] by auto
  moreover have "\<forall>r\<in>set (notes_table (run_ops ops)). row_id r \<noteq> 0"
    using run_ops_positive_ids [of _ ops] by fastforce
  moreover have "step a PressSave =
     (if editingNoteId (snd a) = None \<or> editingNoteId (snd a) = Some 0 then addNote (snd a) a
      else updateNote (snd a) a)"
    by (auto simp: onPressSave_def truthy_def split: option.splits)
  moreover have "trim (currentNote v) \<noteq> [] \<longrightarrow>
     (editingNoteId v = Some i \<and> i \<noteq> 0 \<longrightarrow>
        fst (step (Some d, v) PressSave) = Some (sql_update d (currentNote v) i)) \<and>
     (editingNoteId v = Some 0 \<longrightarrow>
        fst (step (Some d, v) PressSave) = Some (sql_insert d (currentNote v)) \<and>
        notes_table (sql_insert d (currentNote v)) =
          notes_table d @ [\<lparr>row_id = next_id d, row_note = currentNote v\<rparr>])"
    by (simp add: onPressSave_def truthy_def fst_addNote fst_updateNote sql_insert_def)
  ultimately show ?thesis by blast
qed

theorem save_routes_on_truthiness_witness:
  "trim (currentNote edit_zero_view) \<noteq> [] \<and> editingNoteId edit_zero_view = Some 0 \<and>
   0 \<le> sqlite_sequence edit_zero_db \<and>
   \<lparr>row_id = 1, row_note = ''a''\<rparr> \<in> set (notes_table (run_ops [Create ''a''])) \<and>
   fst (step (Some edit_zero_db, edit_zero_view) PressSave) =
     Some \<lparr>notes_table = [\<lparr>row_id = 0, row_note = ''x''\<rparr>, \<lparr>row_id = 1, row_note = ''y''\<rparr>],
            sqlite_sequence = 1\<rparr> \<and>
   next_id edit_zero_db \<noteq> 0 \<and>
   row_id \<lparr>row_id = 1, row_note = ''a''\<rparr> \<noteq> 0 \<and>
   fst (step (Some edit_zero_db, edit_zero_view\<lparr>editingNoteId := Some 5\<rparr>) PressSave) =
     Some (sql_update edit_zero_db ''y'' 5)"
proof -
  have h1: "trim (currentNote edit_zero_view) \<noteq> []"
    by (simp add: edit_zero_view_def trim_def is_ws_def)
  have h2: "editingNoteId edit_zero_view = Some 0"
    by (simp add: edit_zero_view_def)
  have h3: "0 \<le> sqlite_sequence edit_zero_db"
    by (simp add: edit_zero_db_def)
  have h4: "\<lparr>row_id = 1, row_note = ''a''\<rparr> \<in> set (notes_table (run_ops [Create ''a'']))"
    by (simp add: run_ops_def empty_db_def sql_insert_def next_id_def)
  have ins: "sql_insert edit_zero_db ''y'' =
     \<lparr>notes_table = [\<lparr>row_id = 0, row_note = ''x''\<rparr>, \<lparr>row_id = 1, row_note = ''y''\<rparr>],
            sqlite_sequence = 1\<rparr>"
    by (simp add: sql_insert_def edit_zero_db_def next_id_def)
  have cur: "currentNote edit_zero_view = ''y''"
    by (simp add: edit_zero_view_def)
  note T = save_routes_on_truthiness [of _ edit_zero_view _ edit_zero_db "[Create ''a'']"]
  have a: "fst (step (Some edit_zero_db, edit_zero_view) PressSave) =
      Some (sql_insert edit_zero_db (currentNote edit_zero_view))"
    using T h1 h2 by blast
  have b: "next_id edit_zero_db \<noteq> 0"
    using T h3 by blast
  have b': "row_id \<lparr>row_id = 1, row_note = ''a''\<rparr> \<noteq> 0"
    using T h4 by blast
  have h5: "trim (currentNote (edit_zero_view\<lparr>editingNoteId := Some 5\<rparr>)) \<noteq> [] \<and>
      editingNoteId (edit_zero_view\<lparr>editingNoteId := Some 5\<rparr>) = Some 5 \<and> (5::int) \<noteq> 0"
    using h1 by simp
  have c: "fst (step (Some edit_zero_db, edit_zero_view\<lparr>editingNoteId := Some 5\<rparr>) PressSave) =
     Some (sql_update edit_zero_db (currentNote (edit_zero_view\<lparr>editingNoteId := Some 5\<rparr>)) 5)"
    using save_routes_on_truthiness [of _ "edit_zero_view\<lparr>editingNoteId := Some 5\<rparr>" 5 edit_zero_db "[]"] h5
    by blast
  show ?thesis
    using h1 h2 h3 h4 a b b' c by (simp add: cur ins)
qed

subsection \<open>Stale closures: end of list and search term\<close>

lemma onMount_initial:
  "onMount d initial_app = (Some d, initial_view\<lparr>notes_state := sql_select d [] 50 0\<rparr>)"
  by (simp add: onMount_def initializeDB_def initial_app_def loadNotes_Some)
     (simp add: initial_view_def)

lemma onEndReached_Some:
  "onEndReached snap (Some d, cur) =
     (Some d, cur\<lparr>page := page cur + 1,
        notes_state :=
          (if page snap = 0 then sql_select d (search snap) 50 0
           else notes_state snap @ sql_select d (search snap) 50 (page snap * 50))\<rparr>)"
  by (simp add: onEndReached_def loadNotes_Some)

lemma onChangeText_Some:
  "onChangeText text snap (Some d, cur) =
     (Some d, cur\<lparr>search := text, page := 0,
        notes_state :=
          (if page snap = 0 then sql_select d (search snap) 50 0
           else notes_state snap @ sql_select d (search snap) 50 (page snap * 50))\<rparr>)"
  by (simp add: onChangeText_def loadNotes_Some)

lemma notes51_pages:
  "length (sql_select notes51 [] 50 0) = 50"
  "sql_select notes51 [] 50 50 = [\<lparr>row_id = 1, row_note = ''n''\<rparr>]"
  "sql_select notes51 ''z'' 50 0 = []"
  by code_simp+

text \<open>
  \<^bold>\<open>C1 on the code.\<close> The store holds 51 notes and page 0 is loaded: the list shows the 50
  notes with ids 51 down to 2. The end-reached trigger sets \<^verbatim>\<open>page\<close> to 1, but its
  \<^verbatim>\<open>loadNotes\<close> reads the \<^verbatim>\<open>page\<close> of the render that created it, which is 0: it fetches
  offset 0 again and replaces the list with the same 50 notes. The row at offset 50 (id 1)
  is not fetched and not appended.
\<close>

theorem end_reached_refetches_loaded_page:
  "page (snd (onMount notes51 initial_app)) = 0 \<and>
   notes_state (snd (onMount notes51 initial_app)) = sql_select notes51 [] 50 0 \<and>
   sql_select notes51 [] 50 (1 * 50) = [\<lparr>row_id = 1, row_note = ''n''\<rparr>] \<and>
   page (snd (step (onMount notes51 initial_app) EndReached)) = 1 \<and>
   notes_state (snd (step (onMount notes51 initial_app) EndReached)) =
     sql_select notes51 [] 50 (0 * 50) \<and>
   notes_state (snd (step (onMount notes51 initial_app) EndReached)) \<noteq>
     notes_state (snd (onMount notes51 initial_app)) @ sql_select notes51 [] 50 (1 * 50)"
  by (simp add: onMount_initial onEndReached_Some notes51_pages) (simp add: initial_view_def)

text \<open>
  \<^bold>\<open>C2 on the code.\<close> The store holds the notes \<^verbatim>\<open>a\<close> and \<^verbatim>\<open>b\<close> and page 0 of the empty
  term is loaded. Changing the term to \<^verbatim>\<open>a\<close> sets \<^verbatim>\<open>search\<close> and \<^verbatim>\<open>page\<close>, but its
  \<^verbatim>\<open>loadNotes\<close> reads the \<^verbatim>\<open>search\<close> of the render that created it: the list is again both
  notes, not the one note that matches \<^verbatim>\<open>a\<close>. With 51 notes and \<^verbatim>\<open>page\<close> at 1, changing the
  term to \<^verbatim>\<open>z\<close>, which matches nothing, appends the rows at offset 50 of the old term to
  the old list.
\<close>

theorem search_change_loads_previous_term:
  "notes_state (snd (onMount two_notes initial_app)) =
     [\<lparr>row_id = 2, row_note = ''b''\<rparr>, \<lparr>row_id = 1, row_note = ''a''\<rparr>] \<and>
   search (snd (step (onMount two_notes initial_app) (ChangeSearch ''a''))) = ''a'' \<and>
   page (snd (step (onMount two_notes initial_app) (ChangeSearch ''a''))) = 0 \<and>
   notes_state (snd (step (onMount two_notes initial_app) (ChangeSearch ''a''))) =
     [\<lparr>row_id = 2, row_note = ''b''\<rparr>, \<lparr>row_id = 1, row_note = ''a''\<rparr>] \<and>
   sql_select two_notes ''a'' 50 0 = [\<lparr>row_id = 1, row_note = ''a''\<rparr>] \<and>
   page (snd (run initial_app [Mount notes51, EndReached])) = 1 \<and>
   notes_state (snd (run initial_app [Mount notes51, EndReached, ChangeSearch ''z''])) =
     notes_state (snd (run initial_app [Mount notes51, EndReached])) @ sql_select notes51 [] 50 50 \<and>
   sql_select notes51 [] 50 50 = [\<lparr>row_id = 1, row_note = ''n''\<rparr>] \<and>
   sql_select notes51 ''z'' 50 0 = []"
proof -
  have sel: "sql_select two_notes [] 50 0 =
      [\<lparr>row_id = 2, row_note = ''b''\<rparr>, \<lparr>row_id = 1, row_note = ''a''\<rparr>]"
    "sql_select two_notes ''a'' 50 0 = [\<lparr>row_id = 1, row_note = ''a''\<rparr>]"
    by code_simp+
  have small: "notes_state (snd (onMount two_notes initial_app)) =
     [\<lparr>row_id = 2, row_note = ''b''\<rparr>, \<lparr>row_id = 1, row_note = ''a''\<rparr>] \<and>
   search (snd (step (onMount two_notes initial_app) (ChangeSearch ''a''))) = ''a'' \<and>
   page (snd (step (onMount two_notes initial_app) (ChangeSearch ''a''))) = 0 \<and>
   notes_state (snd (step (onMount two_notes initial_app) (ChangeSearch ''a''))) =
     [\<lparr>row_id = 2, row_note = ''b''\<rparr>, \<lparr>row_id = 1, row_note = ''a''\<rparr>]"
    by (simp add: onMount_initial onChangeText_Some) (simp add: initial_view_def sel)
  have r2: "run initial_app [Mount notes51, EndReached] =
      (Some notes51, initial_view\<lparr>notes_state := sql_select notes51 [] 50 0, page := 1\<rparr>)"
    by (simp add: run_def onMount_initial onEndReached_Some) (simp add: initial_view_def)
  have r3: "run initial_app [Mount notes51, EndReached, ChangeSearch ''z''] =
      step (run initial_app [Mount notes51, EndReached]) (ChangeSearch ''z'')"
    by (simp add: run_def)
  have big: "page (snd (run initial_app [Mount notes51, EndReached])) = 1 \<and>
   notes_state (snd (run initial_app [Mount notes51, EndReached, ChangeSearch ''z''])) =
     notes_state (snd (run initial_app [Mount notes51, EndReached])) @ sql_select notes51 [] 50 50"
    unfolding r3 unfolding r2 by (simp add: onChangeText_Some) (simp add: initial_view_def)
  from small sel(2) big notes51_pages(2,3) show ?thesis by blast
qed

end
